theory Spec2Isabelle
  imports Complex_Main
begin

section \<open>Numbers\<close>

text \<open>
  The calculator receives Python numbers (\<^verbatim>\<open>int\<close> or \<^verbatim>\<open>float\<close>) and does its arithmetic
  on \<^verbatim>\<open>decimal.Decimal\<close> values built by \<^verbatim>\<open>Decimal(str(x))\<close>.

  \<^item> A \<^verbatim>\<open>Decimal\<close> is modelled by the rational number it denotes, and \<^verbatim>\<open>+\<close>, \<^verbatim>\<open>-\<close>,
    \<^verbatim>\<open>*\<close>, \<^verbatim>\<open>/\<close> on decimals by exact rational arithmetic. Python rounds every result to
    the 28 significant digits of its decimal context, and \<^verbatim>\<open>quantize\<close> refuses a result of
    more digits; the calculators are modelled without that limit, and the section on the
    decimal context shows the range in which it cannot change a result.
  \<^item> A \<^verbatim>\<open>float\<close> is modelled by the decimal that \<^verbatim>\<open>str\<close> prints for it (written
    \<open>PyFloat (1 / 100)\<close> for \<^verbatim>\<open>0.01\<close>), so \<^verbatim>\<open>Decimal(str(x))\<close> reads that decimal off, and
    \<^verbatim>\<open>float(d)\<close> of a quantized decimal \<open>d\<close> is \<open>d\<close> again, as it is for every decimal of
    at most 15 significant digits. Infinities and NaN are not values of the model.
  \<^item> The built-in \<^verbatim>\<open>sum\<close> adds Python numbers before any conversion to \<^verbatim>\<open>Decimal\<close>:
    integers exactly, floats in binary64. That addition is modelled below on the binary
    values (53 significant bits, ties to even; the exponent range is not modelled).
\<close>

datatype pynum = PyInt int | PyFloat rat

datatype pyval = PyNum pynum | PyStr string | PyNone

datatype pyobj = PyList "pyval list" | PyTuple "pyval list" | PyScalar pyval

fun num_value :: "pynum \<Rightarrow> rat" where
  "num_value (PyInt n) = of_int n"
| "num_value (PyFloat r) = r"

text \<open>\<^verbatim>\<open>Decimal(str(x))\<close> for a number \<open>x\<close>.\<close>

definition decimal_str :: "pynum \<Rightarrow> rat" where
  "decimal_str x = num_value x"

text \<open>
  \<^verbatim>\<open>d.quantize(Decimal('0.01'), rounding=ROUND_HALF_UP)\<close> is \<open>quantize 2 d\<close>, and
  \<open>quantize 4\<close> for \<^verbatim>\<open>Decimal('0.0001')\<close>: the nearest multiple of \<open>10\<^sup>-\<^sup>n\<close>, a tie going
  away from zero.
\<close>

definition quantize :: "nat \<Rightarrow> rat \<Rightarrow> rat" where
  "quantize n x =
     (let s = x * 10 ^ n; m = \<lfloor>\<bar>s\<bar> + 1 / 2\<rfloor>
      in (if s < 0 then - of_int m else of_int m) / 10 ^ n)"

subsection \<open>Binary64 addition and \<^verbatim>\<open>str\<close> of a float\<close>

definition round_half_even :: "rat \<Rightarrow> int" where
  "round_half_even x =
     (let f = \<lfloor>x\<rfloor>; d = x - of_int f
      in if d < 1 / 2 then f else if 1 / 2 < d then f + 1
         else if even f then f else f + 1)"

text \<open>The number of base-\<open>b\<close> digits of a positive integer.\<close>

function ndigits :: "int \<Rightarrow> int \<Rightarrow> int" where
  "ndigits b n = (if n \<le> 0 \<or> b \<le> 1 then 0 else ndigits b (n div b) + 1)"
  by pat_completeness auto
termination
  by (relation "measure (\<lambda>(b, n). nat n)") (auto intro!: int_div_less_self)

declare ndigits.simps [simp del]

text \<open>\<open>floor_log b x\<close> is the \<open>k\<close> with \<open>b\<^sup>k \<le> x < b\<^sup>k\<^sup>+\<^sup>1\<close>, for \<open>x > 0\<close>.\<close>

definition floor_log :: "int \<Rightarrow> rat \<Rightarrow> int" where
  "floor_log b x =
     (let (p, q) = quotient_of x;
          k = ndigits b p - ndigits b q
      in if of_int b powi k \<le> x then k else k - 1)"

text \<open>\<open>x\<close> rounded to \<open>n\<close> significant digits in base \<open>b\<close>, ties to even.\<close>

definition round_digits :: "int \<Rightarrow> int \<Rightarrow> rat \<Rightarrow> rat" where
  "round_digits b n x =
     (if x = 0 then 0
      else let q = of_int b powi (floor_log b \<bar>x\<bar> - n + 1)
           in sgn x * of_int (round_half_even (\<bar>x\<bar> / q)) * q)"

text \<open>The binary64 number nearest to a rational: what \<^verbatim>\<open>float\<close> stores for it.\<close>

definition float_of :: "rat \<Rightarrow> rat" where
  "float_of x = round_digits 2 53 x"

text \<open>
  \<^verbatim>\<open>str\<close> of a float is the shortest decimal that reads back as the same float: the
  float rounded to 1, 2, ... significant digits until it does, 17 digits at most.
\<close>

fun shortest_repr :: "nat \<Rightarrow> int \<Rightarrow> rat \<Rightarrow> rat" where
  "shortest_repr 0 n x = round_digits 10 n x"
| "shortest_repr (Suc k) n x =
     (if float_of (round_digits 10 n x) = x then round_digits 10 n x
      else shortest_repr k (n + 1) x)"

definition str_float :: "rat \<Rightarrow> rat" where
  "str_float x = shortest_repr 16 1 x"

text \<open>The binary value of a Python number used as a float operand.\<close>

fun float_value :: "pynum \<Rightarrow> rat" where
  "float_value (PyInt n) = float_of (of_int n)"
| "float_value (PyFloat r) = float_of r"

text \<open>Python's \<^verbatim>\<open>+\<close> on numbers: exact on two integers, binary64 otherwise.\<close>

fun py_add :: "pynum \<Rightarrow> pynum \<Rightarrow> pynum" where
  "py_add (PyInt a) (PyInt b) = PyInt (a + b)"
| "py_add (PyInt a) (PyFloat s) =
     PyFloat (str_float (float_of (float_value (PyInt a) + float_value (PyFloat s))))"
| "py_add (PyFloat r) (PyInt b) =
     PyFloat (str_float (float_of (float_value (PyFloat r) + float_value (PyInt b))))"
| "py_add (PyFloat r) (PyFloat s) =
     PyFloat (str_float (float_of (float_value (PyFloat r) + float_value (PyFloat s))))"

text \<open>
  The built-in \<^verbatim>\<open>sum(prices)\<close>: a left fold of \<^verbatim>\<open>+\<close> from the integer 0. (From
  Python 3.12 on, \<^verbatim>\<open>sum\<close> also carries the rounding errors of float additions along and
  adds them at the end; for a list of two floats that gives the same float.)
\<close>

definition py_sum :: "pynum list \<Rightarrow> pynum" where
  "py_sum xs = foldl py_add (PyInt 0) xs"

subsection \<open>The decimal context\<close>

text \<open>
  Python rounds the result of every \<^verbatim>\<open>Decimal\<close> operation to the 28 significant digits
  of the default context, ties to even: \<open>context_round\<close>. The calculators below are
  modelled without this rounding; \<open>context_round\<close> is here to show where it would not
  change their results.
\<close>

definition context_round :: "rat \<Rightarrow> rat" where
  "context_round x = round_digits 10 28 x"

text \<open>The unit in the last place of the 28-digit context at a positive number.\<close>

definition context_unit :: "rat \<Rightarrow> rat" where
  "context_unit y = 10 powi (floor_log 10 y - 27)"

section \<open>Data model\<close>

record config =
  name :: string
  float_a :: rat
  weight_b :: rat
  float_c3 :: rat

record price_item =
  price :: pynum
  bid_float_rate :: rat
  config_name :: string
  final_float_a :: rat
  benchmark_price :: rat
  score :: rat

record scoring_record =
  items :: "price_item list"
  timestamp :: string
  avg_price :: rat

text \<open>
  The calculator object together with the result file it writes: \<open>result_file\<close> is the
  list under the key \<^verbatim>\<open>records\<close> of that file.
\<close>

record calculator =
  standard_price :: rat
  configs :: "config list"
  result_file :: "scoring_record list"

text \<open>
  What a call takes from its environment: the clock, and for the \<open>i\<close>-th price the
  draw of the random generator that \<^verbatim>\<open>random.choice\<close> turns into an index.
\<close>

record env =
  now :: string
  draw :: "nat \<Rightarrow> nat"

text \<open>
  The four messages of the \<^verbatim>\<open>ValueError\<close>s that \<^verbatim>\<open>calc\<close> raises, in source order: the
  input is not a list, the list is empty, the list holds an invalid price, no
  configuration can be obtained. Division in \<^verbatim>\<open>decimal\<close> raises \<^verbatim>\<open>DivisionByZero\<close>, and
  \<^verbatim>\<open>InvalidOperation\<close> for \<open>0 / 0\<close>.
\<close>

datatype message = MsgNotList | MsgEmptyList | MsgInvalidPrice | MsgNoConfig

datatype error = ValueError message | DivisionByZero | InvalidOperation



definition decimal_div :: "rat \<Rightarrow> rat \<Rightarrow> error + rat" where
  "decimal_div a b =
     (if b = 0 then (if a = 0 then Inl InvalidOperation else Inl DivisionByZero)
      else Inr (a / b))"

section \<open>Construction\<close>

text \<open>
  The configuration file as \<^verbatim>\<open>json.load\<close> returns it; \<open>None\<close> stands for a file that is
  missing or not JSON, a field \<open>None\<close> for a key that is absent.
\<close>

record config_file =
  cf_standard_price :: "rat option"
  cf_configs :: "config list option"

definition load_standard_price :: "config_file option \<Rightarrow> rat" where
  "load_standard_price f =
     (case f of None \<Rightarrow> 5385
      | Some c \<Rightarrow> (case cf_standard_price c of None \<Rightarrow> 5385 | Some p \<Rightarrow> p))"

definition load_configs :: "config_file option \<Rightarrow> config list" where
  "load_configs f =
     (case f of None \<Rightarrow> []
      | Some c \<Rightarrow> (case cf_configs c of None \<Rightarrow> [] | Some cs \<Rightarrow> cs))"

text \<open>
  \<^verbatim>\<open>__init__\<close>: a result file that does not exist (\<open>None\<close>) is created with no records;
  standard price and configurations are read from the configuration file.
\<close>

definition ensure_result_file :: "scoring_record list option \<Rightarrow> scoring_record list" where
  "ensure_result_file file = (case file of None \<Rightarrow> [] | Some rs \<Rightarrow> rs)"

definition init :: "scoring_record list option \<Rightarrow> config_file option \<Rightarrow> calculator" where
  "init file f =
     \<lparr>standard_price = load_standard_price f,
      configs = load_configs f,
      result_file = ensure_result_file file\<rparr>"

section \<open>The calculators\<close>

definition get_random_config :: "nat \<Rightarrow> config list \<Rightarrow> config option" where
  "get_random_config r cs =
     (if cs = [] then None else Some (cs ! (r mod length cs)))"

definition calculate_final_float_a :: "rat \<Rightarrow> rat \<Rightarrow> rat" where
  "calculate_final_float_a rate fa =
     (let result =
        (if rate \<le> 8 / 100 then fa
         else if rate \<le> 15 / 100 then fa - 25 / 1000
         else fa - 5 / 100)
      in quantize 4 result)"

definition calculate_float_rate :: "calculator \<Rightarrow> pynum \<Rightarrow> error + rat" where
  "calculate_float_rate self p =
     (case decimal_div (decimal_str p - standard_price self) (standard_price self) of
        Inl e \<Rightarrow> Inl e
      | Inr q \<Rightarrow> Inr (quantize 4 q))"

definition calculate_average :: "pynum list \<Rightarrow> rat" where
  "calculate_average prices =
     (if prices = [] then 0
      else let total = decimal_str (py_sum prices);
               count = of_nat (length prices)
           in quantize 2 (total / count))"

definition calculate_benchmark_price :: "calculator \<Rightarrow> rat \<Rightarrow> config \<Rightarrow> rat \<Rightarrow> rat" where
  "calculate_benchmark_price self avg cfg final_a =
     (let part1 = avg * (1 + float_c3 cfg) * weight_b cfg;
          part2 = standard_price self * (1 - final_a) * (1 - weight_b cfg)
      in quantize 2 (part1 + part2))"

definition calculate_score :: "pynum \<Rightarrow> rat \<Rightarrow> error + rat" where
  "calculate_score p benchmark =
     (case decimal_div (decimal_str p - benchmark) benchmark of
        Inl e \<Rightarrow> Inl e
      | Inr q \<Rightarrow>
          let deviation_rate = quantize 4 q;
              deduction =
                (if deviation_rate > 0 then deviation_rate * 200
                 else \<bar>deviation_rate\<bar> * 100);
              final_score = quantize 2 (100 - deduction)
          in Inr (max final_score 0))"

section \<open>The evaluation\<close>

text \<open>
  The validation loop. Past it every element is an \<^verbatim>\<open>int\<close> or a \<^verbatim>\<open>float\<close>, and the
  model goes on with the list of these numbers.
\<close>

fun validate :: "pyval list \<Rightarrow> error + pynum list" where
  "validate [] = Inr []"
| "validate (PyNum n # vs) =
     (if num_value n < 0 then Inl (ValueError MsgInvalidPrice)
      else case validate vs of Inl e \<Rightarrow> Inl e | Inr ns \<Rightarrow> Inr (n # ns))"
| "validate (v # vs) = Inl (ValueError MsgInvalidPrice)"

text \<open>The loop over the prices; \<open>i\<close> counts the prices already handled.\<close>

fun build_items :: "env \<Rightarrow> calculator \<Rightarrow> rat \<Rightarrow> nat \<Rightarrow> pynum list \<Rightarrow> error + price_item list" where
  "build_items e self avg i [] = Inr []"
| "build_items e self avg i (p # ps) =
     (case get_random_config (draw e i) (configs self) of
        None \<Rightarrow> Inl (ValueError MsgNoConfig)
      | Some cfg \<Rightarrow>
          (case calculate_float_rate self p of
             Inl err \<Rightarrow> Inl err
           | Inr rate \<Rightarrow>
               let final_a = calculate_final_float_a rate (float_a cfg);
                   benchmark = calculate_benchmark_price self avg cfg final_a
               in (case calculate_score p benchmark of
                     Inl err \<Rightarrow> Inl err
                   | Inr sc \<Rightarrow>
                       (case build_items e self avg (Suc i) ps of
                          Inl err \<Rightarrow> Inl err
                        | Inr rest \<Rightarrow>
                            Inr (\<lparr>price = p, bid_float_rate = rate,
                                   config_name = name cfg, final_float_a = final_a,
                                   benchmark_price = benchmark, score = sc\<rparr> # rest)))))"

text \<open>
  \<^verbatim>\<open>items.sort(key=lambda x: x['score'], reverse=True)\<close>: Python's sort is stable, also
  with \<^verbatim>\<open>reverse=True\<close>.
\<close>

definition sort_items :: "price_item list \<Rightarrow> price_item list" where
  "sort_items its = sort_key (\<lambda>it. - score it) its"

text \<open>\<^verbatim>\<open>_load_result\<close> and \<^verbatim>\<open>_save_result\<close>: the records of the result file, read and rewritten whole.\<close>

definition load_result :: "calculator \<Rightarrow> scoring_record list" where
  "load_result self = result_file self"

definition save_result :: "calculator \<Rightarrow> scoring_record list \<Rightarrow> calculator" where
  "save_result self records = self\<lparr>result_file := records\<rparr>"

text \<open>
  \<^verbatim>\<open>calc\<close> returns the new record or the error it raises, and the calculator with its
  result file as the call leaves them.
\<close>

definition calc :: "env \<Rightarrow> calculator \<Rightarrow> pyobj \<Rightarrow> (error + scoring_record) \<times> calculator" where
  "calc e self prices =
     (case prices of
        PyList vs \<Rightarrow>
          (if vs = [] then (Inl (ValueError MsgEmptyList), self)
           else case validate vs of
             Inl err \<Rightarrow> (Inl err, self)
           | Inr ps \<Rightarrow>
               let avg = calculate_average ps
               in (case build_items e self avg 0 ps of
                     Inl err \<Rightarrow> (Inl err, self)
                   | Inr its \<Rightarrow>
                       let new_record =
                             \<lparr>items = sort_items its, timestamp = now e, avg_price = avg\<rparr>;
                           result = load_result self
                       in (Inr new_record, save_result self (result @ [new_record]))))
      | _ \<Rightarrow> (Inl (ValueError MsgNotList), self))"

section \<open>The formulas as the specification words them\<close>

text \<open>
  Section 4.5 of the specification: the deviation, the deduction, and the score as
  \<open>round2 (max (100 - deduction) 0)\<close>, on the decimal values of price and benchmark.
\<close>

definition spec_deviation :: "rat \<Rightarrow> rat \<Rightarrow> rat" where
  "spec_deviation p b = quantize 4 ((p - b) / b)"

definition spec_deduction :: "rat \<Rightarrow> rat" where
  "spec_deduction d = (if d > 0 then d * 200 else \<bar>d\<bar> * 100)"

definition spec_score :: "rat \<Rightarrow> rat \<Rightarrow> rat" where
  "spec_score p b = quantize 2 (max (100 - spec_deduction (spec_deviation p b)) 0)"


text \<open>
  Section 4.7, step 2, read with section 4.1: the average of the prices' decimal
  values, summed and divided exactly, rounded to two digits.
\<close>

definition spec_average :: "pynum list \<Rightarrow> rat" where
  "spec_average prices =
     quantize 2 (sum_list (map decimal_str prices) / of_nat (length prices))"







text \<open>Items in non-increasing order of score.\<close>

definition score_descending :: "price_item list \<Rightarrow> bool" where
  "score_descending its = sorted_wrt (\<lambda>a b. score b \<le> score a) its"

section \<open>The worked scenario\<close>

definition config_A :: config where
  "config_A = \<lparr>name = ''A'', float_a = 5 / 100, weight_b = 6 / 10, float_c3 = 2 / 100\<rparr>"

definition calculator_A :: calculator where
  "calculator_A = \<lparr>standard_price = 5385, configs = [config_A], result_file = []\<rparr>"

definition env_0 :: env where
  "env_0 = \<lparr>now = ''2024-01-01 00:00:00'', draw = (\<lambda>i. 0)\<rparr>"

definition item_5200 :: price_item where
  "item_5200 =
     \<lparr>price = PyInt 5200, bid_float_rate = - (344 / 10000), config_name = ''A'',
      final_float_a = 5 / 100, benchmark_price = 52287 / 10, score = 9945 / 100\<rparr>"

definition record_5200 :: scoring_record where
  "record_5200 = \<lparr>items = [item_5200], timestamp = now env_0, avg_price = 5200\<rparr>"

text \<open>
  A second configuration, a calculator holding both with one record already in its file,
  and a batch of four prices; the draws \<open>0, 1, 2, 3\<close> select A, B, A, B.
\<close>

definition config_B :: config where
  "config_B = \<lparr>name = ''B'', float_a = 10 / 100, weight_b = 5 / 10, float_c3 = 1 / 100\<rparr>"

definition calculator_AB :: calculator where
  "calculator_AB =
     \<lparr>standard_price = 5385, configs = [config_A, config_B], result_file = [record_5200]\<rparr>"

definition env_1 :: env where
  "env_1 = \<lparr>now = ''2024-01-02 12:30:00'', draw = (\<lambda>i. i)\<rparr>"

definition prices_4 :: "pyval list" where
  "prices_4 = [PyNum (PyInt 30000), PyNum (PyInt 5200), PyNum (PyInt 20000), PyNum (PyInt 5100)]"

definition item_30000 :: price_item where
  "item_30000 =
     \<lparr>price = PyInt 30000, bid_float_rate = 45710 / 10000, config_name = ''A'',
      final_float_a = 0, benchmark_price = 1137990 / 100, score = 0\<rparr>"

definition item_5200_B :: price_item where
  "item_5200_B =
     \<lparr>price = PyInt 5200, bid_float_rate = - (344 / 10000), config_name = ''B'',
      final_float_a = 1000 / 10000, benchmark_price = 1003613 / 100, score = 5181 / 100\<rparr>"

definition item_20000 :: price_item where
  "item_20000 =
     \<lparr>price = PyInt 20000, bid_float_rate = 27140 / 10000, config_name = ''A'',
      final_float_a = 0, benchmark_price = 1137990 / 100, score = 0\<rparr>"

definition item_5100_B :: price_item where
  "item_5100_B =
     \<lparr>price = PyInt 5100, bid_float_rate = - (529 / 10000), config_name = ''B'',
      final_float_a = 1000 / 10000, benchmark_price = 1003613 / 100, score = 5082 / 100\<rparr>"

definition record_4 :: scoring_record where
  "record_4 =
     \<lparr>items = [item_5200_B, item_5100_B, item_30000, item_20000],
      timestamp = now env_1, avg_price = 15075\<rparr>"

text \<open>Two float prices, \<^verbatim>\<open>[5000.0, 5100.03]\<close>, and the record the code returns for them.\<close>

definition prices_drift :: "pynum list" where
  "prices_drift = [PyFloat 5000, PyFloat (510003 / 100)]"

definition item_5000 :: price_item where
  "item_5000 =
     \<lparr>price = PyFloat 5000, bid_float_rate = - (715 / 10000), config_name = ''A'',
      final_float_a = 5 / 100, benchmark_price = 513691 / 100, score = 9733 / 100\<rparr>"

definition item_510003 :: price_item where
  "item_510003 =
     \<lparr>price = PyFloat (510003 / 100), bid_float_rate = - (529 / 10000), config_name = ''A'',
      final_float_a = 5 / 100, benchmark_price = 513691 / 100, score = 9928 / 100\<rparr>"

definition record_drift :: scoring_record where
  "record_drift =
     \<lparr>items = [item_510003, item_5000], timestamp = now env_0, avg_price = 505001 / 100\<rparr>"


section \<open>Rounding\<close>

lemma floor_half: "\<lfloor>1 / 2 :: rat\<rfloor> = 0"
  by (simp add: floor_eq_iff)




lemma quantize_le_int:
  assumes "x \<le> of_int k" and "0 \<le> k"
  shows "quantize n x \<le> of_int k"
proof (cases "x * 10 ^ n < 0")
  case True
  have "0 \<le> \<lfloor>\<bar>x * 10 ^ n\<bar> + 1 / 2\<rfloor>"
    by simp
  then have "quantize n x \<le> 0"
    using True by (simp add: quantize_def Let_def divide_le_0_iff)
  also have "0 \<le> (of_int k :: rat)"
    using assms(2) by simp
  finally show ?thesis .
next
  case False
  define s where "s = x * 10 ^ n"
  define K where "K = k * 10 ^ n"
  have s0: "0 \<le> s"
    using False by (simp add: s_def)
  have "s \<le> of_int k * 10 ^ n"
    unfolding s_def using assms(1) by (simp add: mult_right_mono)
  then have sK: "s \<le> of_int K"
    by (simp add: K_def)
  have "\<bar>s\<bar> + 1 / 2 < of_int K + 1"
    using s0 sK by linarith
  then have "\<lfloor>\<bar>s\<bar> + 1 / 2\<rfloor> \<le> K"
    by (simp add: floor_le_iff)
  then have "(of_int \<lfloor>\<bar>s\<bar> + 1 / 2\<rfloor> :: rat) \<le> of_int K"
    by (simp only: of_int_le_iff)
  then have "(of_int \<lfloor>\<bar>s\<bar> + 1 / 2\<rfloor> :: rat) / 10 ^ n \<le> of_int k"
    by (simp add: pos_divide_le_eq K_def)
  with False show ?thesis
    by (simp add: quantize_def Let_def s_def)
qed



lemma quantize_minus: "quantize n (- x) = - quantize n x"
  by (cases "x = 0") (auto simp add: quantize_def Let_def floor_half)

lemma quantize_tie:
  assumes "x * 10 ^ n = of_int k + 1 / 2" and "0 \<le> k"
  shows "quantize n x = of_int (k + 1) / 10 ^ n"
proof -
  have "\<not> x * 10 ^ n < 0"
    using assms by simp
  moreover have "\<lfloor>\<bar>x * 10 ^ n\<bar> + 1 / 2\<rfloor> = k + 1"
    using assms by (simp add: floor_eq_iff)
  ultimately show ?thesis
    by (simp add: quantize_def Let_def del: of_int_add)
qed

lemma quantize_error: "\<bar>quantize n x - x\<bar> \<le> 1 / (2 * 10 ^ n)"
proof -
  define s where "s = \<bar>x\<bar> * 10 ^ n"
  define m where "m = \<lfloor>s + 1 / 2\<rfloor>"
  have m: "of_int m \<le> s + 1 / 2" "s + 1 / 2 < of_int m + 1"
    unfolding m_def by linarith+
  have "\<bar>of_int m - s\<bar> \<le> 1 / 2"
    using m by linarith
  then have "\<bar>of_int m - s\<bar> / 10 ^ n \<le> (1 / 2) / 10 ^ n"
    by (rule divide_right_mono) simp
  moreover have "(1 / 2 :: rat) / 10 ^ n = 1 / (2 * 10 ^ n)"
    by simp
  moreover have "\<bar>of_int m - s\<bar> / 10 ^ n = \<bar>of_int m / 10 ^ n - \<bar>x\<bar>\<bar>"
  proof -
    have eq: "(of_int m - s) / 10 ^ n = of_int m / 10 ^ n - \<bar>x\<bar>"
      by (simp add: s_def diff_divide_distrib)
    have "\<bar>of_int m - s\<bar> / 10 ^ n = \<bar>(of_int m - s) / 10 ^ n\<bar>"
      by simp
    then show ?thesis
      by (simp only: eq)
  qed
  ultimately have e: "\<bar>of_int m / 10 ^ n - \<bar>x\<bar>\<bar> \<le> 1 / (2 * 10 ^ n)"
    by simp
  have "0 \<le> \<bar>x\<bar> * 10 ^ n"
    by simp
  then have pos: "quantize n \<bar>x\<bar> = of_int m / 10 ^ n"
    by (simp add: quantize_def Let_def m_def s_def abs_mult not_less [symmetric])
  show ?thesis
  proof (cases "0 \<le> x")
    case True
    with e pos show ?thesis by simp
  next
    case False
    then have "x = - \<bar>x\<bar>" by simp
    then have "quantize n x - x = - (quantize n \<bar>x\<bar> - \<bar>x\<bar>)"
      using quantize_minus [of n "\<bar>x\<bar>"] by simp
    with e pos show ?thesis
      by (simp only: abs_minus)
  qed
qed

section \<open>The decimal context\<close>

text \<open>
  Where the 28 significant digits of Python's decimal context cannot show. A quotient is
  rounded to 28 digits before \<^verbatim>\<open>quantize\<close> rounds it again; the second rounding gives
  the digits of the exact quotient whenever the numerator, written as an integer over the
  denominator's power of ten, stays below \<open>10\<^sup>2\<^sup>7\<^sup>-\<^sup>k\<close> for \<open>k\<close> digits kept
  (\<open>context_round_decimals\<close>): for the deviation and the float rate, prices with two
  fractional digits up to \<open>10\<^sup>2\<^sup>1\<close>. Sums, differences and products are exact as long as
  they have at most 28 digits (\<open>context_round_short\<close>).
\<close>

lemma ndigits_nonneg: "0 \<le> ndigits b n"
proof (induction b n rule: ndigits.induct)
  case (1 b n)
  then show ?case
    by (simp add: ndigits.simps [of b n])
qed

lemma ndigits_bounds:
  assumes "2 \<le> b" and "1 \<le> n"
  shows "b ^ nat (ndigits b n - 1) \<le> n \<and> n < b ^ nat (ndigits b n)"
  using assms
proof (induction b n rule: ndigits.induct)
  case (1 b n)
  show ?case
  proof (cases "n div b = 0")
    case True
    then have "n < b"
      using "1.prems" by (simp add: div_pos_pos_trivial zdiv_eq_0_iff)
    then show ?thesis
      using "1.prems" True by (simp add: ndigits.simps [of b n] ndigits.simps [of b 0])
  next
    case False
    moreover have "0 \<le> n div b"
      using "1.prems" by (simp add: pos_imp_zdiv_nonneg_iff)
    ultimately have d: "1 \<le> n div b"
      by linarith
    have b0: "\<not> (n \<le> 0 \<or> b \<le> 1)"
      using "1.prems" by simp
    from "1.IH" [OF b0 "1.prems"(1) d]
    have ih: "b ^ nat (ndigits b (n div b) - 1) \<le> n div b"
      "n div b < b ^ nat (ndigits b (n div b))"
      by simp_all
    have pos: "1 \<le> ndigits b (n div b)"
      using d "1.prems" ndigits_nonneg [of b "n div b div b"]
      by (simp add: ndigits.simps [of b "n div b"])
    have eq: "ndigits b n = ndigits b (n div b) + 1"
      using b0 by (simp add: ndigits.simps [of b n])
    have n1: "nat (ndigits b n - 1) = Suc (nat (ndigits b (n div b) - 1))"
      using pos by (simp add: eq nat_diff_distrib Suc_nat_eq_nat_zadd1)
    have n2: "nat (ndigits b n) = Suc (nat (ndigits b (n div b)))"
      using pos by (simp add: eq nat_add_distrib)
    have m: "0 \<le> n mod b" "n mod b < b"
      using "1.prems" by simp_all
    have e: "b * (n div b) + n mod b = n"
      by (rule mult_div_mod_eq)
    have lo: "b * (n div b) \<le> n"
      using e m by linarith
    have "b * (n div b + 1) = b * (n div b) + b"
      by (simp add: distrib_left)
    then have hi: "n < b * (n div b + 1)"
      using e m by linarith
    have "b ^ nat (ndigits b n - 1) = b * b ^ nat (ndigits b (n div b) - 1)"
      by (simp add: n1)
    also have "\<dots> \<le> b * (n div b)"
      using ih(1) "1.prems" by (simp add: mult_left_mono)
    also note lo
    finally have L: "b ^ nat (ndigits b n - 1) \<le> n" .
    have "n div b + 1 \<le> b ^ nat (ndigits b (n div b))"
      using ih(2) by simp
    then have "b * (n div b + 1) \<le> b * b ^ nat (ndigits b (n div b))"
      using "1.prems" by (simp add: mult_left_mono)
    with hi have "n < b ^ nat (ndigits b n)"
      by (simp add: n2)
    with L show ?thesis ..
  qed
qed

lemma ndigits_pos: "2 \<le> b \<Longrightarrow> 1 \<le> n \<Longrightarrow> 1 \<le> ndigits b n"
  using ndigits_nonneg [of b "n div b"] by (simp add: ndigits.simps [of b n])

lemma ndigits_powi:
  assumes "2 \<le> b" and "1 \<le> n"
  shows "(of_int b :: rat) powi (ndigits b n - 1) \<le> of_int n"
    and "(of_int n :: rat) < of_int b powi ndigits b n"
proof -
  from ndigits_bounds [OF assms]
  have lo: "b ^ nat (ndigits b n - 1) \<le> n" and hi: "n < b ^ nat (ndigits b n)"
    by simp_all
  have d: "1 \<le> ndigits b n"
    using assms by (rule ndigits_pos)
  have "(of_int b :: rat) powi (ndigits b n - 1) = of_int (b ^ nat (ndigits b n - 1))"
    using d by (simp add: power_int_def)
  also have "\<dots> \<le> of_int n"
    using lo by (simp only: of_int_le_iff)
  finally show "(of_int b :: rat) powi (ndigits b n - 1) \<le> of_int n" .
  have "(of_int n :: rat) < of_int (b ^ nat (ndigits b n))"
    using hi by (simp only: of_int_less_iff)
  also have "\<dots> = of_int b powi ndigits b n"
    using d by (simp add: power_int_def)
  finally show "(of_int n :: rat) < of_int b powi ndigits b n" .
qed

lemma floor_log_bounds:
  assumes "0 < x" and "2 \<le> b"
  shows "of_int b powi floor_log b x \<le> x \<and> x < of_int b powi (floor_log b x + 1)"
proof -
  obtain p q where pq: "quotient_of x = (p, q)"
    by (cases "quotient_of x")
  then have q: "0 < q" and x: "x = of_int p / of_int q"
    by (simp_all add: quotient_of_denom_pos quotient_of_div)
  from assms(1) q have "0 < p"
    by (simp add: x zero_less_divide_iff)
  then have p: "1 \<le> p" and q1: "1 \<le> q"
    using q by simp_all
  define B :: rat where "B = of_int b"
  define k where "k = ndigits b p - ndigits b q"
  have B: "1 < B" "0 < B" "B \<noteq> 0"
    using assms(2) by (simp_all add: B_def)
  note bp = ndigits_powi [OF assms(2) p, folded B_def]
  note bq = ndigits_powi [OF assms(2) q1, folded B_def]
  have Q: "(0::rat) < of_int q"
    using q by simp
  have "x < B powi ndigits b p / of_int q"
    unfolding x using bp(2) Q by (simp add: divide_strict_right_mono)
  also have "\<dots> \<le> B powi ndigits b p / B powi (ndigits b q - 1)"
  proof (rule divide_left_mono)
    show "B powi (ndigits b q - 1) \<le> of_int q"
      by (rule bq(1))
    show "0 \<le> B powi ndigits b p"
      using B(2) by (simp add: less_imp_le)
    show "0 < of_int q * B powi (ndigits b q - 1)"
      using Q B(2) by simp
  qed
  also have "\<dots> = B powi (k + 1)"
    using B(3) by (simp add: k_def power_int_diff [symmetric] algebra_simps)
  finally have up: "x < B powi (k + 1)" .
  have "B powi (k - 1) = B powi (ndigits b p - 1) / B powi ndigits b q"
    using B(3) by (simp add: k_def power_int_diff [symmetric] algebra_simps)
  also have "\<dots> \<le> of_int p / B powi ndigits b q"
    using bp(1) B by (simp add: divide_right_mono)
  also have "\<dots> \<le> x"
    unfolding x
  proof (rule divide_left_mono)
    show "of_int q \<le> B powi ndigits b q"
      using bq(2) by (rule less_imp_le)
    show "(0::rat) \<le> of_int p"
      using \<open>0 < p\<close> by simp
    show "0 < B powi ndigits b q * of_int q"
      using Q B(2) by simp
  qed
  finally have lo: "B powi (k - 1) \<le> x" .
  have fl: "floor_log b x = (if B powi k \<le> x then k else k - 1)"
    by (simp add: floor_log_def pq k_def B_def Let_def)
  show ?thesis
  proof (cases "B powi k \<le> x")
    case True
    with up fl show ?thesis
      by (simp add: B_def)
  next
    case False
    with lo fl show ?thesis
      by (simp add: B_def)
  qed
qed

lemma round_half_even_error: "\<bar>of_int (round_half_even y) - y\<bar> \<le> 1 / 2"
proof -
  have "of_int \<lfloor>y\<rfloor> \<le> y" "y < of_int \<lfloor>y\<rfloor> + 1"
    by linarith+
  then show ?thesis
    by (auto simp add: round_half_even_def Let_def)
qed

lemma round_half_even_of_int: "round_half_even (of_int j) = j"
  by (simp add: round_half_even_def)

lemma round_half_even_pos: "1 \<le> y \<Longrightarrow> 1 \<le> round_half_even y"
proof -
  assume "1 \<le> y"
  then have "1 \<le> \<lfloor>y\<rfloor>"
    by (simp add: le_floor_iff)
  then show ?thesis
    by (auto simp add: round_half_even_def Let_def)
qed

lemma context_unit_pos: "0 < context_unit y"
  by (simp add: context_unit_def)

lemma context_unit_le:
  assumes "0 < y"
  shows "context_unit y \<le> y / 10 ^ 27"
proof -
  have "10 powi floor_log 10 y \<le> y"
    using floor_log_bounds [OF assms, of 10] by simp
  moreover have "context_unit y = 10 powi floor_log 10 y / 10 ^ 27"
    by (simp add: context_unit_def power_int_diff)
  ultimately show ?thesis
    by (simp add: divide_right_mono)
qed

lemma context_round_abs:
  assumes "x \<noteq> 0"
  shows "context_round x
    = sgn x * (of_int (round_half_even (\<bar>x\<bar> / context_unit \<bar>x\<bar>)) * context_unit \<bar>x\<bar>)"
  using assms
  by (simp add: context_round_def round_digits_def Let_def context_unit_def algebra_simps)

lemma context_round_error:
  assumes "0 < y"
  shows "\<bar>of_int (round_half_even (y / context_unit y)) * context_unit y - y\<bar>
    \<le> context_unit y / 2"
proof -
  define u where "u = context_unit y"
  have u: "0 < u"
    by (simp add: u_def context_unit_pos)
  have "of_int (round_half_even (y / u)) * u - y = (of_int (round_half_even (y / u)) - y / u) * u"
    using u by (simp add: algebra_simps)
  then have "\<bar>of_int (round_half_even (y / u)) * u - y\<bar>
      = \<bar>of_int (round_half_even (y / u)) - y / u\<bar> * u"
    using u by (simp add: abs_mult)
  also have "\<dots> \<le> (1 / 2) * u"
    using round_half_even_error [of "y / u"] u by (simp add: mult_right_mono)
  finally show ?thesis
    by (simp add: u_def)
qed

lemma context_round_pos:
  assumes "0 < y"
  shows "0 < of_int (round_half_even (y / context_unit y)) * context_unit y"
proof -
  have "context_unit y \<le> y / 10 ^ 27"
    using assms by (rule context_unit_le)
  also have "\<dots> \<le> y"
    using assms by (simp add: divide_le_eq)
  finally have "1 \<le> y / context_unit y"
    using context_unit_pos [of y] by (simp add: le_divide_eq)
  then have "1 \<le> round_half_even (y / context_unit y)"
    by (rule round_half_even_pos)
  then have "(0::rat) < of_int (round_half_even (y / context_unit y))"
    by simp
  then show ?thesis
    using context_unit_pos [of y] by simp
qed

lemma context_round_exact:
  assumes "0 < y" and "y / context_unit y = of_int j"
  shows "of_int (round_half_even (y / context_unit y)) * context_unit y = y"
proof -
  have "of_int (round_half_even (y / context_unit y)) = y / context_unit y"
    by (simp only: assms(2) round_half_even_of_int)
  then show ?thesis
    using context_unit_pos [of y] by simp
qed

lemma quantize_abs:
  "quantize n x = sgn x * (of_int \<lfloor>\<bar>x\<bar> * 10 ^ n + 1 / 2\<rfloor> / 10 ^ n)"
proof -
  have "x * 10 ^ n < 0 \<longleftrightarrow> x < 0"
    by (simp add: mult_less_0_iff)
  then show ?thesis
    by (cases "x = 0"; cases "x < 0")
      (simp_all add: quantize_def Let_def abs_mult sgn_if floor_eq_iff)
qed

lemma context_round_zero: "context_round 0 = 0"
  by (simp add: context_round_def round_digits_def)

lemma context_unit_inverse:
  assumes "floor_log 10 y + int k \<le> 26"
  shows "1 / context_unit y = 10 ^ Suc k * of_int (10 ^ nat (26 - int k - floor_log 10 y))"
proof -
  define j where "j = nat (26 - int k - floor_log 10 y)"
  have j: "27 - floor_log 10 y = int (Suc k) + int j"
    using assms by (simp add: j_def)
  have "1 / context_unit y = 10 powi (27 - floor_log 10 y)"
    by (simp add: context_unit_def power_int_minus_divide [symmetric])
  also have "\<dots> = 10 powi (int (Suc k) + int j)"
    by (simp only: j)
  also have "\<dots> = 10 powi int (Suc k) * 10 powi int j"
    by (rule power_int_add) simp
  also have "\<dots> = 10 ^ Suc k * of_int (10 ^ j)"
    by (simp only: power_int_of_nat) simp
  finally show ?thesis
    by (simp only: j_def)
qed

lemma floor_log_less:
  assumes "0 < y" and "y < 10 ^ (27 - k)" and "k \<le> 27"
  shows "floor_log 10 y + int k \<le> 26"
proof (rule ccontr)
  assume "\<not> floor_log 10 y + int k \<le> 26"
  then have "int (27 - k) \<le> floor_log 10 y"
    using assms(3) by simp
  then have "(10::rat) powi int (27 - k) \<le> 10 powi floor_log 10 y"
    by (rule power_int_increasing) simp
  also have "\<dots> \<le> y"
    using floor_log_bounds [OF assms(1), of 10] by simp
  finally show False
    using assms(2) by simp
qed

lemma floor_round_context:
  fixes n d :: int
  assumes n: "1 \<le> n" "n < 10 ^ (27 - k)" and d: "1 \<le> d" and k: "k \<le> 27"
  defines "y \<equiv> of_int n / of_int d"
  defines "r \<equiv> of_int (round_half_even (y / context_unit y)) * context_unit y"
  shows "\<lfloor>r * 10 ^ k + 1 / 2\<rfloor> = \<lfloor>y * 10 ^ k + 1 / 2\<rfloor>"
proof -
  define m where "m = \<lfloor>y * 10 ^ k + 1 / 2\<rfloor>"
  define D :: rat where "D = of_int d"
  have D: "1 \<le> D" "0 < D"
    using d by (simp_all add: D_def)
  have y: "0 < y"
    using n d by (simp add: y_def)
  have yD: "y * D = of_int n"
    using D by (simp add: y_def D_def)
  have nlt: "(of_int n :: rat) < 10 ^ (27 - k)"
  proof -
    have "(of_int n :: rat) < of_int (10 ^ (27 - k))"
      using n(2) by (simp only: of_int_less_iff)
    then show ?thesis
      by simp
  qed
  have yn: "y \<le> of_int n"
  proof -
    have "y * 1 \<le> y * D"
      using y D by (intro mult_left_mono) simp_all
    then show ?thesis
      by (simp add: yD)
  qed
  have ylt: "y < 10 ^ (27 - k)"
    using yn nlt by (rule le_less_trans)
  have err: "\<bar>r - y\<bar> \<le> context_unit y / 2"
    unfolding r_def using y by (rule context_round_error)
  have "context_unit y \<le> y / 10 ^ 27"
    using y by (rule context_unit_le)
  with err have "\<bar>r - y\<bar> \<le> y / 10 ^ 27 / 2"
    by simp
  then have "\<bar>r - y\<bar> * 10 ^ k * (2 * D) \<le> y / 10 ^ 27 / 2 * 10 ^ k * (2 * D)"
    using D by (intro mult_right_mono) simp_all
  also have "\<dots> = of_int n * 10 ^ k / 10 ^ 27"
    using yD by (simp add: field_simps)
  also have "\<dots> < 1"
  proof -
    have "of_int n * (10::rat) ^ k < 10 ^ (27 - k) * 10 ^ k"
      using nlt by (intro mult_strict_right_mono) simp_all
    also have "\<dots> = 10 ^ 27"
      using k by (simp add: power_add [symmetric])
    finally show ?thesis
      by simp
  qed
  finally have small: "\<bar>r - y\<bar> * 10 ^ k * (2 * D) < 1" .
  have m: "of_int m \<le> y * 10 ^ k + 1 / 2" "y * 10 ^ k + 1 / 2 < of_int m + 1"
    unfolding m_def by linarith+
  have scaled: "(y * 10 ^ k + 1 / 2) * (2 * D) = of_int (2 * 10 ^ k * n + d)"
    using yD by (simp add: algebra_simps D_def)
  have upper: "r * 10 ^ k + 1 / 2 < of_int m + 1"
  proof -
    have rhs: "(of_int m + 1) * (2 * D) = of_int ((m + 1) * (2 * d))"
      by (simp add: D_def)
    have "(y * 10 ^ k + 1 / 2) * (2 * D) < (of_int m + 1) * (2 * D)"
      using m(2) D by (intro mult_strict_right_mono) simp_all
    then have "(of_int (2 * 10 ^ k * n + d) :: rat) < of_int ((m + 1) * (2 * d))"
      by (simp only: scaled rhs)
    then have "2 * 10 ^ k * n + d < (m + 1) * (2 * d)"
      by (simp only: of_int_less_iff)
    then have "2 * 10 ^ k * n + d + 1 \<le> (m + 1) * (2 * d)"
      by simp
    then have "(of_int (2 * 10 ^ k * n + d + 1) :: rat) \<le> of_int ((m + 1) * (2 * d))"
      by (simp only: of_int_le_iff)
    then have "(of_int (2 * 10 ^ k * n + d) :: rat) + 1 \<le> of_int ((m + 1) * (2 * d))"
      by simp
    then have gap: "(y * 10 ^ k + 1 / 2) * (2 * D) + 1 \<le> (of_int m + 1) * (2 * D)"
      by (simp only: scaled rhs)
    have "(r * 10 ^ k + 1 / 2) * (2 * D)
        = (y * 10 ^ k + 1 / 2) * (2 * D) + (r - y) * 10 ^ k * (2 * D)"
      by (simp add: algebra_simps)
    also have "(r - y) * 10 ^ k * (2 * D) \<le> \<bar>r - y\<bar> * 10 ^ k * (2 * D)"
      using D by (intro mult_right_mono) simp_all
    finally have "(r * 10 ^ k + 1 / 2) * (2 * D) < (of_int m + 1) * (2 * D)"
      using small gap by linarith
    then show ?thesis
      using D by (simp add: mult_less_cancel_right)
  qed
  have lower: "of_int m \<le> r * 10 ^ k + 1 / 2"
  proof (cases "of_int m = y * 10 ^ k + 1 / 2")
    case True
    have e: "floor_log 10 y + int k \<le> 26"
      using y ylt k by (rule floor_log_less)
    from True have yk: "y * 10 ^ Suc k = of_int ((2 * m - 1) * 5)"
      by (simp add: field_simps)
    have "y / context_unit y = y * (1 / context_unit y)"
      by simp
    also have "\<dots> = y * (10 ^ Suc k * of_int (10 ^ nat (26 - int k - floor_log 10 y)))"
      by (simp only: context_unit_inverse [OF e])
    also have "\<dots> = y * 10 ^ Suc k * of_int (10 ^ nat (26 - int k - floor_log 10 y))"
      by (simp only: mult.assoc)
    also have "\<dots> = of_int ((2 * m - 1) * 5) * of_int (10 ^ nat (26 - int k - floor_log 10 y))"
      by (simp only: yk)
    finally have "y / context_unit y
        = of_int ((2 * m - 1) * 5 * 10 ^ nat (26 - int k - floor_log 10 y))"
      by (simp only: of_int_mult)
    with y have "r = y"
      unfolding r_def by (rule context_round_exact)
    with m(1) show ?thesis
      by simp
  next
    case False
    with m(1) have "of_int m < y * 10 ^ k + 1 / 2"
      by simp
    then have "of_int m * (2 * D) < (y * 10 ^ k + 1 / 2) * (2 * D)"
      using D by (intro mult_strict_right_mono) simp_all
    moreover have lhs: "of_int m * (2 * D) = of_int (m * (2 * d))"
      by (simp add: D_def)
    ultimately have "(of_int (m * (2 * d)) :: rat) < of_int (2 * 10 ^ k * n + d)"
      by (simp only: scaled)
    then have "m * (2 * d) < 2 * 10 ^ k * n + d"
      by (simp only: of_int_less_iff)
    then have "m * (2 * d) + 1 \<le> 2 * 10 ^ k * n + d"
      by simp
    then have "(of_int (m * (2 * d) + 1) :: rat) \<le> of_int (2 * 10 ^ k * n + d)"
      by (simp only: of_int_le_iff)
    then have "(of_int (m * (2 * d)) :: rat) + 1 \<le> of_int (2 * 10 ^ k * n + d)"
      by simp
    then have gap: "of_int m * (2 * D) + 1 \<le> (y * 10 ^ k + 1 / 2) * (2 * D)"
      by (simp only: scaled lhs)
    have "(r * 10 ^ k + 1 / 2) * (2 * D)
        = (y * 10 ^ k + 1 / 2) * (2 * D) - (y - r) * 10 ^ k * (2 * D)"
      by (simp add: algebra_simps)
    moreover have "(y - r) * 10 ^ k * (2 * D) \<le> \<bar>r - y\<bar> * 10 ^ k * (2 * D)"
      using D by (intro mult_right_mono) simp_all
    ultimately have "of_int m * (2 * D) \<le> (r * 10 ^ k + 1 / 2) * (2 * D)"
      using small gap by linarith
    then show ?thesis
      using D by (simp add: mult_le_cancel_right)
  qed
  from lower upper have "\<lfloor>r * 10 ^ k + 1 / 2\<rfloor> = m"
    by (rule floor_unique)
  then show ?thesis
    by (simp add: m_def)
qed

lemma context_round_quotient:
  fixes N B :: int
  assumes "B \<noteq> 0" and "\<bar>N\<bar> < 10 ^ (27 - k)" and "k \<le> 27"
  shows "quantize k (context_round (of_int N / of_int B)) = quantize k (of_int N / of_int B)"
proof (cases "N = 0")
  case True
  then show ?thesis
    by (simp add: context_round_zero)
next
  case False
  define x :: rat where "x = of_int N / of_int B"
  define y where "y = \<bar>x\<bar>"
  define r where "r = of_int (round_half_even (y / context_unit y)) * context_unit y"
  have x0: "x \<noteq> 0"
    using False assms(1) by (simp add: x_def)
  then have y0: "0 < y"
    by (simp add: y_def)
  have yq: "y = of_int \<bar>N\<bar> / of_int \<bar>B\<bar>"
    by (simp add: y_def x_def)
  have cr: "context_round x = sgn x * r"
    using x0 by (simp add: context_round_abs r_def y_def)
  have rpos: "0 < r"
    unfolding r_def using y0 by (rule context_round_pos)
  have s: "sgn (sgn x * r) = sgn x" "\<bar>sgn x * r\<bar> = r"
    using rpos x0 by (simp_all add: sgn_mult abs_mult)
  have "\<lfloor>r * 10 ^ k + 1 / 2\<rfloor> = \<lfloor>y * 10 ^ k + 1 / 2\<rfloor>"
    unfolding r_def yq
    by (rule floor_round_context) (use False assms in simp_all)
  then have "quantize k (sgn x * r) = quantize k x"
    by (simp add: quantize_abs [of k "sgn x * r"] quantize_abs [of k x] s y_def)
  then have "quantize k (context_round x) = quantize k x"
    by (simp only: cr)
  then show ?thesis
    unfolding x_def .
qed

lemma context_round_short:
  fixes c :: int
  assumes "\<bar>c\<bar> < 10 ^ 28"
  shows "context_round (of_int c / 10 ^ j) = of_int c / 10 ^ j"
proof (cases "c = 0")
  case True
  then show ?thesis
    by (simp add: context_round_zero)
next
  case False
  define x :: rat where "x = of_int c / 10 ^ j"
  define y where "y = \<bar>x\<bar>"
  define e where "e = floor_log 10 y"
  define i where "i = nat (27 - e - int j)"
  have x0: "x \<noteq> 0"
    using False by (simp add: x_def)
  then have y0: "0 < y"
    by (simp add: y_def)
  have yc: "y * 10 ^ j = of_int \<bar>c\<bar>"
    by (simp add: y_def x_def)
  have "(of_int \<bar>c\<bar> :: rat) < of_int (10 ^ 28)"
    using assms by (simp only: of_int_less_iff)
  then have clt: "(of_int \<bar>c\<bar> :: rat) < 10 ^ 28"
    by simp
  have ej: "e + int j \<le> 27"
  proof (rule ccontr)
    assume "\<not> e + int j \<le> 27"
    then have "28 - int j \<le> e"
      by simp
    then have "(10::rat) powi (28 - int j) \<le> 10 powi e"
      by (rule power_int_increasing) simp
    also have "\<dots> \<le> y"
      using floor_log_bounds [OF y0, of 10] by (simp add: e_def)
    finally have "10 powi (28 - int j) * 10 ^ j \<le> y * 10 ^ j"
      by (intro mult_right_mono) simp_all
    moreover have "(10::rat) powi (28 - int j) * 10 ^ j = 10 ^ 28"
      by (simp add: power_int_diff)
    ultimately show False
      using clt by (simp add: yc)
  qed
  then have i: "27 - e = int j + int i"
    by (simp add: i_def)
  have "1 / context_unit y = 10 powi (27 - e)"
    by (simp add: context_unit_def e_def power_int_minus_divide [symmetric])
  also have "\<dots> = 10 powi (int j + int i)"
    by (simp only: i)
  also have "\<dots> = 10 powi int j * 10 powi int i"
    by (rule power_int_add) simp
  also have "\<dots> = 10 ^ j * of_int (10 ^ i)"
    by (simp only: power_int_of_nat) simp
  finally have u: "1 / context_unit y = 10 ^ j * of_int (10 ^ i)" .
  have "y / context_unit y = y * (1 / context_unit y)"
    by simp
  also have "\<dots> = y * (10 ^ j * of_int (10 ^ i))"
    by (simp only: u)
  also have "\<dots> = y * 10 ^ j * of_int (10 ^ i)"
    by (simp only: mult.assoc)
  also have "\<dots> = of_int \<bar>c\<bar> * of_int (10 ^ i)"
    by (simp only: yc)
  finally have "y / context_unit y = of_int (\<bar>c\<bar> * 10 ^ i)"
    by (simp only: of_int_mult)
  with y0 have "of_int (round_half_even (y / context_unit y)) * context_unit y = y"
    by (rule context_round_exact)
  then have "context_round x = sgn x * y"
    using x0 by (simp add: context_round_abs y_def)
  then have "context_round x = x"
    by (simp add: y_def sgn_mult_abs)
  then show ?thesis
    unfolding x_def .
qed

lemma context_round_decimals:
  fixes A B :: int
  assumes "a = of_int A / 10 ^ j" and "b = of_int B / 10 ^ j"
    and "B \<noteq> 0" and "\<bar>A\<bar> < 10 ^ (27 - k)" and "k \<le> 27"
  shows "quantize k (context_round (a / b)) = quantize k (a / b)"
proof -
  have "a / b = of_int A / of_int B"
    by (simp add: assms(1,2))
  then show ?thesis
    using context_round_quotient [OF assms(3,4,5)] by simp
qed

section \<open>The worked scenario, step by step\<close>

lemma standard_price_A: "standard_price calculator_A = 5385"
  by (simp add: calculator_A_def)

lemma name_A: "name config_A = ''A''"
  by (simp add: config_A_def)

lemma select_A: "get_random_config (draw env_0 i) (configs calculator_A) = Some config_A"
  by (simp add: get_random_config_def calculator_A_def)

lemma float_rate_standard:
  "standard_price self = standard_price self' \<Longrightarrow>
     calculate_float_rate self p = calculate_float_rate self' p"
  by (simp add: calculate_float_rate_def)

lemma benchmark_standard:
  "standard_price self = standard_price self' \<Longrightarrow>
     calculate_benchmark_price self avg cfg fa = calculate_benchmark_price self' avg cfg fa"
  by (simp add: calculate_benchmark_price_def)

lemma float_rate_5200:
  "calculate_float_rate calculator_A (PyInt 5200) = Inr (- (43 / 1250))"
  by code_simp

lemma final_float_a_5200:
  "calculate_final_float_a (- (43 / 1250)) (float_a config_A) = 1 / 20"
  by code_simp

lemma benchmark_5200:
  "calculate_benchmark_price calculator_A 5200 config_A (1 / 20) = 52287 / 10"
  by code_simp

lemma score_5200: "calculate_score (PyInt 5200) (52287 / 10) = Inr (1989 / 20)"
  by code_simp



lemma spec_score_5200: "spec_score 5200 (52287 / 10) = 1989 / 20"
  by code_simp

lemma average_5200: "calculate_average [PyInt 5200] = 5200"
  by code_simp

lemma calc_5200:
  "calc env_0 calculator_A (PyList [PyNum (PyInt 5200)]) =
     (Inr record_5200, calculator_A\<lparr>result_file := [record_5200]\<rparr>)"
  by code_simp

lemma calc_4:
  "calc env_1 calculator_AB (PyList prices_4) =
     (Inr record_4, calculator_AB\<lparr>result_file := [record_5200, record_4]\<rparr>)"
  by code_simp

lemma calc_zero_standard:
  "calc env_0 (calculator_A\<lparr>standard_price := 0\<rparr>) (PyList [PyNum (PyInt 5200)]) =
     (Inl DivisionByZero, calculator_A\<lparr>standard_price := 0\<rparr>)"
  by code_simp

section \<open>The decimal context on the worked inputs\<close>

text \<open>
  In the scenario of the single price 5200 the two quotients round to the same four
  digits with and without the context's 28 digits, the benchmark sum is short enough to
  be exact, and each number handed on as a \<^verbatim>\<open>float\<close> reads back as the decimal it was.
\<close>

lemma context_float_rate_5200:
  "quantize 4 (context_round ((5200 - 5385) / 5385)) = quantize 4 ((5200 - 5385) / 5385)"
  by code_simp

lemma context_deviation_5200:
  "quantize 4 (context_round ((5200 - 52287 / 10) / (52287 / 10)))
     = quantize 4 ((5200 - 52287 / 10) / (52287 / 10))"
  by code_simp

lemma float_reads_back_5200:
  "str_float (float_of 5200) = 5200"
  "str_float (float_of (- (344 / 10000))) = - (344 / 10000)"
  "str_float (float_of (5 / 100)) = 5 / 100"
  "str_float (float_of (52287 / 10)) = 52287 / 10"
  "str_float (float_of (9945 / 100)) = 9945 / 100"
  by code_simp+

lemma context_benchmark_5200:
  "context_round (5200 * (1 + 2 / 100) * (6 / 10) + 5385 * (1 - 5 / 100) * (1 - 6 / 10))
     = 5200 * (1 + 2 / 100) * (6 / 10) + 5385 * (1 - 5 / 100) * (1 - 6 / 10)"
  by code_simp

section \<open>Validation\<close>

lemma validate_Inr:
  "validate vs = Inr ps \<Longrightarrow> vs = map PyNum ps \<and> (\<forall>n\<in>set ps. 0 \<le> num_value n)"
  by (induction vs arbitrary: ps rule: validate.induct) (auto split: if_splits sum.splits)




section \<open>The loop over the prices\<close>

lemma calculate_score_range:
  assumes "calculate_score p b = Inr sc"
  shows "0 \<le> sc \<and> sc \<le> 100"
proof -
  define dev where "dev = quantize 4 ((decimal_str p - b) / b)"
  define ded where "ded = (if dev > 0 then dev * 200 else \<bar>dev\<bar> * 100)"
  have sc: "sc = max (quantize 2 (100 - ded)) 0"
    using assms
    by (auto simp add: calculate_score_def decimal_div_def Let_def dev_def ded_def
        split: if_splits)
  have "0 \<le> ded"
    by (simp add: ded_def)
  then have "100 - ded \<le> of_int 100"
    by simp
  then have "quantize 2 (100 - ded) \<le> of_int 100"
    by (rule quantize_le_int) simp
  then show ?thesis
    by (simp add: sc)
qed

lemma build_items_scores:
  "build_items e self avg i ps = Inr its \<Longrightarrow> \<forall>it\<in>set its. 0 \<le> score it \<and> score it \<le> 100"
proof (induction ps arbitrary: i its)
  case Nil
  then show ?case by simp
next
  case (Cons p ps)
  from Cons.prems obtain cfg rate sc rest where
    sc: "calculate_score p (calculate_benchmark_price self avg cfg
            (calculate_final_float_a rate (float_a cfg))) = Inr sc"
    and rest: "build_items e self avg (Suc i) ps = Inr rest"
    and its: "its = \<lparr>price = p, bid_float_rate = rate, config_name = name cfg,
        final_float_a = calculate_final_float_a rate (float_a cfg),
        benchmark_price = calculate_benchmark_price self avg cfg
            (calculate_final_float_a rate (float_a cfg)), score = sc\<rparr> # rest"
    by (auto simp add: Let_def split: option.splits sum.splits)
  from sc have "0 \<le> sc \<and> sc \<le> 100"
    by (rule calculate_score_range)
  with Cons.IH [OF rest] show ?case
    by (simp add: its)
qed

lemma build_items_prices:
  "build_items e self avg i ps = Inr its \<Longrightarrow> map price its = ps"
proof (induction ps arbitrary: i its)
  case Nil
  then show ?case by simp
next
  case (Cons p ps)
  from Cons.prems obtain it rest where
    rest: "build_items e self avg (Suc i) ps = Inr rest"
    and its: "its = it # rest" and p: "price it = p"
    by (auto simp add: Let_def split: option.splits sum.splits)
  with Cons.IH [OF rest] show ?case
    by simp
qed




lemma get_random_config_member:
  "get_random_config r cs = Some cfg \<Longrightarrow> cfg \<in> set cs"
  by (auto simp add: get_random_config_def split: if_splits)

lemma build_items_average:
  "build_items e self avg i ps = Inr its \<Longrightarrow>
     \<forall>it\<in>set its. \<exists>cfg\<in>set (configs self).
        benchmark_price it = calculate_benchmark_price self avg cfg (final_float_a it)"
proof (induction ps arbitrary: i its)
  case Nil
  then show ?case by simp
next
  case (Cons p ps)
  from Cons.prems obtain cfg rate sc rest where
    cfg: "get_random_config (draw e i) (configs self) = Some cfg"
    and rest: "build_items e self avg (Suc i) ps = Inr rest"
    and its: "its = \<lparr>price = p, bid_float_rate = rate, config_name = name cfg,
        final_float_a = calculate_final_float_a rate (float_a cfg),
        benchmark_price = calculate_benchmark_price self avg cfg
            (calculate_final_float_a rate (float_a cfg)), score = sc\<rparr> # rest"
    by (auto simp add: Let_def split: option.splits sum.splits)
  from cfg have "cfg \<in> set (configs self)"
    by (rule get_random_config_member)
  with Cons.IH [OF rest] show ?case
    by (auto simp add: its)
qed

section \<open>The sort\<close>

lemma score_descending_sort_items: "score_descending (sort_items its)"
proof -
  have "sorted (map (\<lambda>it. - score it) (sort_key (\<lambda>it. - score it) its))"
    by (rule sorted_sort_key)
  then show ?thesis
    by (simp add: score_descending_def sort_items_def sorted_map)
qed

lemma score_descending_adjacent:
  assumes "score_descending its" and "Suc i < length its"
  shows "score (its ! Suc i) \<le> score (its ! i)"
  using assms by (simp add: score_descending_def sorted_wrt_iff_nth_less)

lemma sort_items_stable:
  "filter (\<lambda>it. score it = s) (sort_items its) = filter (\<lambda>it. score it = s) its"
proof -
  have "filter (\<lambda>it. - score it = - s) (sort_key (\<lambda>it. - score it) its)
      = filter (\<lambda>it. - score it = - s) its"
    by (rule sort_key_stable)
  then show ?thesis
    by (simp add: sort_items_def)
qed

section \<open>The call as a whole\<close>

lemma calc_success:
  assumes "calc e self prices = (Inr r, self')"
  shows "\<exists>vs ps its. prices = PyList vs \<and> vs \<noteq> [] \<and> validate vs = Inr ps
           \<and> build_items e self (calculate_average ps) 0 ps = Inr its
           \<and> r = \<lparr>items = sort_items its, timestamp = now e,
                    avg_price = calculate_average ps\<rparr>
           \<and> self' = self\<lparr>result_file := result_file self @ [r]\<rparr>"
  using assms
  by (auto simp add: calc_def Let_def load_result_def save_result_def
      split: pyobj.splits if_splits sum.splits)

lemma calc_failure: "calc e self prices = (Inl err, self') \<Longrightarrow> self' = self"
  by (auto simp add: calc_def Let_def split: pyobj.splits if_splits sum.splits)

lemma calc_frame: "\<exists>log. snd (calc e self prices) = self\<lparr>result_file := log\<rparr>"
proof (cases "fst (calc e self prices)")
  case (Inl err)
  then have "calc e self prices = (Inl err, snd (calc e self prices))"
    by (simp add: prod_eq_iff)
  then have "snd (calc e self prices) = self"
    by (rule calc_failure)
  then have "snd (calc e self prices) = self\<lparr>result_file := result_file self\<rparr>"
    by simp
  then show ?thesis ..
next
  case (Inr r)
  then have "calc e self prices = (Inr r, snd (calc e self prices))"
    by (simp add: prod_eq_iff)
  from calc_success [OF this]
  have "snd (calc e self prices) = self\<lparr>result_file := result_file self @ [r]\<rparr>"
    by blast
  then show ?thesis ..
qed

lemma calc_average_reused:
  assumes "calc e self prices = (Inr r, self')"
  shows "\<forall>it\<in>set (items r). \<exists>cfg\<in>set (configs self).
        benchmark_price it = calculate_benchmark_price self (avg_price r) cfg (final_float_a it)"
proof -
  from calc_success [OF assms] obtain ps its where
    its: "build_items e self (calculate_average ps) 0 ps = Inr its"
    and r: "r = \<lparr>items = sort_items its, timestamp = now e,
                  avg_price = calculate_average ps\<rparr>"
    by blast
  from build_items_average [OF its] show ?thesis
    by (simp add: r sort_items_def)
qed

section \<open>The built-in sum\<close>

lemma foldl_py_add_ints:
  "foldl py_add (PyInt a) (map PyInt ns) = PyInt (a + sum_list ns)"
  by (induction ns arbitrary: a) (simp_all add: add.assoc)

lemma py_sum_ints: "py_sum (map PyInt ns) = PyInt (sum_list ns)"
  by (simp add: py_sum_def foldl_py_add_ints)

lemma calculate_average_ints:
  "ns \<noteq> [] \<Longrightarrow> calculate_average (map PyInt ns) = spec_average (map PyInt ns)"
proof -
  have "sum_list (map decimal_str (map PyInt ns)) = of_int (sum_list ns)"
    by (induction ns) (simp_all add: decimal_str_def)
  then show "ns \<noteq> [] \<Longrightarrow> calculate_average (map PyInt ns) = spec_average (map PyInt ns)"
    by (simp add: calculate_average_def spec_average_def py_sum_ints decimal_str_def)
qed

lemma shortest_repr_hit:
  "float_of (round_digits 10 n x) = x \<Longrightarrow> shortest_repr (Suc k) n x = round_digits 10 n x"
  by simp

lemma shortest_repr_miss:
  "(\<And>i. n \<le> i \<Longrightarrow> i < n + int k \<Longrightarrow> float_of (round_digits 10 i x) \<noteq> x) \<Longrightarrow>
     shortest_repr k n x = round_digits 10 (n + int k) x"
proof (induction k arbitrary: n)
  case 0
  then show ?case by simp
next
  case (Suc k)
  have "float_of (round_digits 10 n x) \<noteq> x"
    by (rule Suc.prems) simp_all
  moreover have "shortest_repr k (n + 1) x = round_digits 10 (n + 1 + int k) x"
    by (rule Suc.IH) (rule Suc.prems, simp_all)
  ultimately show ?case
    by (simp add: ac_simps)
qed

lemma float_of_0: "float_of 0 = 0"
  by code_simp

lemma float_of_5000: "float_of 5000 = 5000"
  by code_simp

lemma round_digits_5000: "round_digits 10 1 5000 = 5000"
  by code_simp

lemma float_of_510003: "float_of (510003 / 100) = 5607542287006433 / 1099511627776"
  by code_simp

lemma float_add_5000_510003:
  "float_of (11105100425886433 / 1099511627776) = 347034388308951 / 34359738368"
  by code_simp

lemma repr_sum_1:
  "float_of (round_digits 10 1 (347034388308951 / 34359738368)) \<noteq> 347034388308951 / 34359738368"
  by code_simp

lemma repr_sum_2:
  "float_of (round_digits 10 2 (347034388308951 / 34359738368)) \<noteq> 347034388308951 / 34359738368"
  by code_simp

lemma repr_sum_3:
  "float_of (round_digits 10 3 (347034388308951 / 34359738368)) \<noteq> 347034388308951 / 34359738368"
  by code_simp

lemma repr_sum_4:
  "float_of (round_digits 10 4 (347034388308951 / 34359738368)) \<noteq> 347034388308951 / 34359738368"
  by code_simp

lemma repr_sum_5:
  "float_of (round_digits 10 5 (347034388308951 / 34359738368)) \<noteq> 347034388308951 / 34359738368"
  by code_simp

lemma repr_sum_6:
  "float_of (round_digits 10 6 (347034388308951 / 34359738368)) \<noteq> 347034388308951 / 34359738368"
  by code_simp

lemma repr_sum_7:
  "float_of (round_digits 10 7 (347034388308951 / 34359738368)) \<noteq> 347034388308951 / 34359738368"
  by code_simp

lemma repr_sum_8:
  "float_of (round_digits 10 8 (347034388308951 / 34359738368)) \<noteq> 347034388308951 / 34359738368"
  by code_simp

lemma repr_sum_9:
  "float_of (round_digits 10 9 (347034388308951 / 34359738368)) \<noteq> 347034388308951 / 34359738368"
  by code_simp

lemma repr_sum_10:
  "float_of (round_digits 10 10 (347034388308951 / 34359738368)) \<noteq> 347034388308951 / 34359738368"
  by code_simp

lemma repr_sum_11:
  "float_of (round_digits 10 11 (347034388308951 / 34359738368)) \<noteq> 347034388308951 / 34359738368"
  by code_simp

lemma repr_sum_12:
  "float_of (round_digits 10 12 (347034388308951 / 34359738368)) \<noteq> 347034388308951 / 34359738368"
  by code_simp

lemma repr_sum_13:
  "float_of (round_digits 10 13 (347034388308951 / 34359738368)) \<noteq> 347034388308951 / 34359738368"
  by code_simp

lemma repr_sum_14:
  "float_of (round_digits 10 14 (347034388308951 / 34359738368)) \<noteq> 347034388308951 / 34359738368"
  by code_simp

lemma repr_sum_15:
  "float_of (round_digits 10 15 (347034388308951 / 34359738368)) \<noteq> 347034388308951 / 34359738368"
  by code_simp

lemma repr_sum_16:
  "float_of (round_digits 10 16 (347034388308951 / 34359738368)) \<noteq> 347034388308951 / 34359738368"
  by code_simp

lemma repr_sum_17:
  "round_digits 10 17 (347034388308951 / 34359738368) = 10100029999999999 / 1000000000000"
  by code_simp

lemma str_float_5000: "str_float 5000 = 5000"
proof -
  have "float_of (round_digits 10 1 5000) = 5000"
    by (simp only: round_digits_5000 float_of_5000)
  then have "shortest_repr (Suc 15) 1 5000 = round_digits 10 1 5000"
    by (rule shortest_repr_hit)
  then show ?thesis
    by (simp add: str_float_def round_digits_5000)
qed

lemma shortest_repr_miss_list:
  assumes "list_all (\<lambda>i. float_of (round_digits 10 i x) \<noteq> x) [n..n + int k - 1]"
  shows "shortest_repr k n x = round_digits 10 (n + int k) x"
proof (rule shortest_repr_miss)
  fix i
  assume "n \<le> i" and "i < n + int k"
  then have "i \<in> set [n..n + int k - 1]"
    by simp
  with assms show "float_of (round_digits 10 i x) \<noteq> x"
    by (simp add: list_all_iff)
qed

lemma digits_1_16: "[1..1 + int 16 - 1] = [1, 2, 3, 4, 5, 6, 7, 8, 9, 10, 11, 12, 13, 14, 15, 16]"
  by code_simp

lemma str_float_sum:
  "str_float (347034388308951 / 34359738368) = 10100029999999999 / 1000000000000"
proof -
  have "list_all (\<lambda>i. float_of (round_digits 10 i (347034388308951 / 34359738368))
      \<noteq> 347034388308951 / 34359738368) [1..1 + int 16 - 1]"
    by (simp only: digits_1_16 list.pred_inject simp_thms repr_sum_1 repr_sum_2 repr_sum_3
        repr_sum_4 repr_sum_5 repr_sum_6 repr_sum_7 repr_sum_8 repr_sum_9 repr_sum_10
        repr_sum_11 repr_sum_12 repr_sum_13 repr_sum_14 repr_sum_15 repr_sum_16)
  then have "shortest_repr 16 1 (347034388308951 / 34359738368)
      = round_digits 10 (1 + int 16) (347034388308951 / 34359738368)"
    by (rule shortest_repr_miss_list)
  also have "1 + int 16 = 17"
    by simp
  finally show ?thesis
    by (simp only: str_float_def repr_sum_17)
qed

lemma py_sum_drift:
  "py_sum [PyFloat 5000, PyFloat (510003 / 100)] = PyFloat (10100029999999999 / 1000000000000)"
proof -
  have "py_add (PyInt 0) (PyFloat 5000) = PyFloat 5000"
    by (simp add: float_of_0 float_of_5000 str_float_5000)
  moreover have "py_add (PyFloat 5000) (PyFloat (510003 / 100))
      = PyFloat (10100029999999999 / 1000000000000)"
    by (simp add: float_of_5000 float_of_510003 float_add_5000_510003 str_float_sum)
  ultimately show ?thesis
    by (simp only: py_sum_def foldl.simps)
qed

lemma quantize_drift: "quantize 2 (10100029999999999 / 2000000000000) = 505001 / 100"
  by code_simp

lemma spec_average_drift: "spec_average [PyFloat 5000, PyFloat (510003 / 100)] = 505002 / 100"
  by code_simp

lemma items_drift:
  "build_items env_0 calculator_A (505001 / 100) 0 prices_drift = Inr [item_5000, item_510003]"
  by code_simp

lemma sorted_drift: "sort_items [item_5000, item_510003] = [item_510003, item_5000]"
  by code_simp

lemma context_drift:
  "context_round (10100029999999999 / 1000000000000 / 2) = 10100029999999999 / 2000000000000"
  by code_simp

section \<open>The claims\<close>

text \<open>
  C1. With standard price 5385, the configuration A (\<open>float_a = 0.05\<close>,
  \<open>weight_b = 0.6\<close>, \<open>float_c3 = 0.02\<close>) selected for the item and the price list
  \<open>[5200]\<close>, \<open>calc\<close> returns, and appends to the result file, the record with
  \<open>avg_price = 5200.00\<close> whose single item has \<open>bid_float_rate = -0.0344\<close>,
  \<open>final_float_a = 0.0500\<close>, \<open>benchmark_price = 5228.70\<close> and \<open>score = 99.45\<close>
  (the item \<open>item_5200\<close>), whatever else the calculator holds and whenever it runs.
\<close>

theorem scenario_5200:
  assumes "standard_price self = 5385"
    and "get_random_config (draw e 0) (configs self) = Some config_A"
  shows "calc e self (PyList [PyNum (PyInt 5200)]) =
           (Inr \<lparr>items = [item_5200], timestamp = now e, avg_price = 5200\<rparr>,
            self\<lparr>result_file := result_file self
               @ [\<lparr>items = [item_5200], timestamp = now e, avg_price = 5200\<rparr>]\<rparr>)"
proof -
  have sp: "standard_price self = standard_price calculator_A"
    using assms(1) by (simp add: standard_price_A)
  have bi: "build_items e self 5200 0 [PyInt 5200] = Inr [item_5200]"
    using assms(2)
    by (simp add: float_rate_standard [OF sp] benchmark_standard [OF sp] float_rate_5200
        final_float_a_5200 benchmark_5200 score_5200 name_A item_5200_def Let_def)
  show ?thesis
    by (simp add: calc_def average_5200 sort_items_def Let_def load_result_def
        save_result_def bi del: build_items.simps)
qed

theorem scenario_5200_witness:
  "standard_price calculator_A = 5385
   \<and> get_random_config (draw env_0 0) (configs calculator_A) = Some config_A
   \<and> fst (calc env_0 calculator_A (PyList [PyNum (PyInt 5200)])) =
       Inr \<lparr>items = [item_5200], timestamp = now env_0, avg_price = 5200\<rparr>
   \<and> bid_float_rate item_5200 = - (344 / 10000)
   \<and> final_float_a item_5200 = 500 / 10000
   \<and> benchmark_price item_5200 = 522870 / 100
   \<and> score item_5200 = 9945 / 100"
proof -
  have a: "standard_price calculator_A = 5385"
    by (simp add: calculator_A_def)
  have b: "get_random_config (draw env_0 0) (configs calculator_A) = Some config_A"
    by (rule select_A)
  show ?thesis
    using a b scenario_5200 [OF a b] by (simp add: item_5200_def)
qed





text \<open>
  C4. The claim: \<open>avg_price\<close> is \<open>round2 (sum prices / count prices)\<close> with the sum and the
  division in exact decimal arithmetic, never in binary floating point. The code sums
  with the built-in \<^verbatim>\<open>sum\<close> before it converts to \<^verbatim>\<open>Decimal\<close>, so float prices are
  added in binary64. For the prices \<^verbatim>\<open>[5000.0, 5100.03]\<close> that sum is
  \<^verbatim>\<open>10100.029999999999\<close> and the code's average is \<open>5050.01\<close>, where the exact decimal
  average \<open>5050.015\<close> rounds to \<open>5050.02\<close>.
\<close>

theorem calculate_average_float_sum:
  "fst (calc env_0 calculator_A (PyList (map PyNum prices_drift))) = Inr record_drift
   \<and> avg_price record_drift = 505001 / 100
   \<and> calculate_average prices_drift = 505001 / 100
   \<and> spec_average prices_drift = 505002 / 100"
proof -
  have avg: "calculate_average prices_drift = 505001 / 100"
    by (simp add: prices_drift_def calculate_average_def decimal_str_def py_sum_drift
        quantize_drift)
  have v: "validate (map PyNum prices_drift) = Inr prices_drift"
    by (simp add: prices_drift_def)
  have ne: "prices_drift \<noteq> []"
    by (simp add: prices_drift_def)
  have "fst (calc env_0 calculator_A (PyList (map PyNum prices_drift))) = Inr record_drift"
    by (simp add: calc_def v ne avg items_drift sorted_drift record_drift_def Let_def
        del: build_items.simps)
  then show ?thesis
    by (simp add: avg record_drift_def) (simp add: spec_average_drift prices_drift_def)
qed

text \<open>
  C5. In every record that \<open>calc\<close> returns, every item's score lies between 0 and 100.
\<close>

theorem score_in_range:
  assumes "calc e self prices = (Inr r, self')"
  shows "\<forall>it\<in>set (items r). 0 \<le> score it \<and> score it \<le> 100"
proof -
  from calc_success [OF assms] obtain ps its where
    its: "build_items e self (calculate_average ps) 0 ps = Inr its"
    and r: "items r = sort_items its"
    by auto
  from build_items_scores [OF its] show ?thesis
    by (simp add: r sort_items_def)
qed

theorem score_in_range_witness:
  "calc env_1 calculator_AB (PyList prices_4) =
     (Inr record_4, calculator_AB\<lparr>result_file := [record_5200, record_4]\<rparr>)
   \<and> list_all (\<lambda>it. 0 \<le> score it \<and> score it \<le> 100) (items record_4)
   \<and> map score (items record_4) = [5181 / 100, 5082 / 100, 0, 0]"
proof -
  have "map score (items record_4) = [5181 / 100, 5082 / 100, 0, 0]"
    by (simp add: record_4_def item_5200_B_def item_5100_B_def item_30000_def item_20000_def)
  with calc_4 score_in_range [OF calc_4] show ?thesis
    by (simp only: list_all_iff)
qed

text \<open>
  C6. In every record that \<open>calc\<close> returns, the items are in non-increasing order of
  score, any two adjacent items satisfying \<open>score[i] \<ge> score[i+1]\<close>; and the items of
  any one score stand in the order in which the loop over the input prices produced
  them (the list \<open>its\<close>, whose prices are the input prices in input order).
\<close>

theorem items_sorted_stable:
  assumes "calc e self prices = (Inr r, self')"
  shows "score_descending (items r)
    \<and> (\<forall>i. Suc i < length (items r) \<longrightarrow> score (items r ! Suc i) \<le> score (items r ! i))
    \<and> (\<exists>ps its. prices = PyList (map PyNum ps)
          \<and> build_items e self (avg_price r) 0 ps = Inr its
          \<and> map price its = ps
          \<and> (\<forall>s. filter (\<lambda>it. score it = s) (items r) = filter (\<lambda>it. score it = s) its))"
proof -
  from calc_success [OF assms] obtain vs ps its where
    vs: "prices = PyList vs" and val: "validate vs = Inr ps"
    and its: "build_items e self (calculate_average ps) 0 ps = Inr its"
    and r: "r = \<lparr>items = sort_items its, timestamp = now e,
                  avg_price = calculate_average ps\<rparr>"
    by blast
  have desc: "score_descending (items r)"
    by (simp add: r score_descending_sort_items)
  have adj: "\<forall>i. Suc i < length (items r) \<longrightarrow> score (items r ! Suc i) \<le> score (items r ! i)"
    using desc by (simp add: score_descending_adjacent)
  have "prices = PyList (map PyNum ps)"
    using vs validate_Inr [OF val] by simp
  moreover have "build_items e self (avg_price r) 0 ps = Inr its"
    using its by (simp add: r)
  moreover have "map price its = ps"
    using its by (rule build_items_prices)
  moreover have "\<forall>s. filter (\<lambda>it. score it = s) (items r) = filter (\<lambda>it. score it = s) its"
    by (simp add: r sort_items_stable)
  ultimately show ?thesis
    using desc adj by blast
qed

theorem items_sorted_stable_witness:
  "calc env_1 calculator_AB (PyList prices_4) =
     (Inr record_4, calculator_AB\<lparr>result_file := [record_5200, record_4]\<rparr>)
   \<and> score_descending (items record_4)
   \<and> score (items record_4 ! Suc 0) \<le> score (items record_4 ! 0)
   \<and> score (items record_4 ! Suc 2) \<le> score (items record_4 ! 2)
   \<and> (\<exists>ps its. PyList prices_4 = PyList (map PyNum ps)
         \<and> build_items env_1 calculator_AB (avg_price record_4) 0 ps = Inr its
         \<and> map price its = ps
         \<and> (\<forall>s. filter (\<lambda>it. score it = s) (items record_4)
                = filter (\<lambda>it. score it = s) its))
   \<and> map price (items record_4) = [PyInt 5200, PyInt 5100, PyInt 30000, PyInt 20000]"
proof -
  have p: "map price (items record_4) = [PyInt 5200, PyInt 5100, PyInt 30000, PyInt 20000]"
    by (simp add: record_4_def item_5200_B_def item_5100_B_def item_30000_def item_20000_def)
  have l: "Suc 0 < length (items record_4)" "Suc 2 < length (items record_4)"
    by (simp_all add: record_4_def)
  from l calc_4 p items_sorted_stable [OF calc_4] show ?thesis
    by blast
qed

text \<open>
  C7. When \<open>calc\<close> fails, with whatever error, the calculator and its result file are
  as before the call; when it succeeds, the returned record, and nothing else, has been
  appended to the result file.
\<close>

theorem calc_log:
  "(\<forall>err. fst (calc e self prices) = Inl err \<longrightarrow> snd (calc e self prices) = self)
   \<and> (\<forall>r. fst (calc e self prices) = Inr r \<longrightarrow>
         snd (calc e self prices) = self\<lparr>result_file := result_file self @ [r]\<rparr>)"
proof (intro conjI allI impI)
  fix err
  assume "fst (calc e self prices) = Inl err"
  then have "calc e self prices = (Inl err, snd (calc e self prices))"
    by (simp add: prod_eq_iff)
  then show "snd (calc e self prices) = self"
    by (rule calc_failure)
next
  fix r
  assume "fst (calc e self prices) = Inr r"
  then have "calc e self prices = (Inr r, snd (calc e self prices))"
    by (simp add: prod_eq_iff)
  from calc_success [OF this]
  show "snd (calc e self prices) = self\<lparr>result_file := result_file self @ [r]\<rparr>"
    by blast
qed

theorem calc_log_witness:
  "fst (calc env_0 calculator_A (PyList [])) = Inl (ValueError MsgEmptyList)
   \<and> snd (calc env_0 calculator_A (PyList [])) = calculator_A
   \<and> fst (calc env_0 (calculator_A\<lparr>standard_price := 0\<rparr>) (PyList [PyNum (PyInt 5200)]))
       = Inl DivisionByZero
   \<and> snd (calc env_0 (calculator_A\<lparr>standard_price := 0\<rparr>) (PyList [PyNum (PyInt 5200)]))
       = calculator_A\<lparr>standard_price := 0\<rparr>
   \<and> fst (calc env_1 calculator_AB (PyList prices_4)) = Inr record_4
   \<and> snd (calc env_1 calculator_AB (PyList prices_4))
       = calculator_AB\<lparr>result_file := result_file calculator_AB @ [record_4]\<rparr>"
proof -
  have a: "fst (calc env_0 calculator_A (PyList [])) = Inl (ValueError MsgEmptyList)"
    by (simp add: calc_def)
  have b: "fst (calc env_0 (calculator_A\<lparr>standard_price := 0\<rparr>) (PyList [PyNum (PyInt 5200)]))
      = Inl DivisionByZero"
    by (simp add: calc_zero_standard)
  have c: "fst (calc env_1 calculator_AB (PyList prices_4)) = Inr record_4"
    by (simp add: calc_4)
  show ?thesis
    using a b c calc_log [of env_0 calculator_A "PyList []"]
      calc_log [of env_0 "calculator_A\<lparr>standard_price := 0\<rparr>" "PyList [PyNum (PyInt 5200)]"]
      calc_log [of env_1 calculator_AB "PyList prices_4"]
    by blast
qed







text \<open>
  C10. Whether \<open>calc\<close> succeeds or fails, the calculator it leaves has the standard
  price and the configurations it had: it differs from the one before the call in the
  result file at most. With a calculator fresh from \<open>init\<close> they are the values loaded
  from the configuration file at construction.
\<close>

theorem calc_frame_fields:
  "standard_price (snd (calc e self prices)) = standard_price self
   \<and> configs (snd (calc e self prices)) = configs self
   \<and> (\<exists>log. snd (calc e self prices) = self\<lparr>result_file := log\<rparr>)
   \<and> standard_price (snd (calc e (init file f) prices)) = load_standard_price f
   \<and> configs (snd (calc e (init file f) prices)) = load_configs f"
proof -
  have fr: "standard_price (snd (calc e' s p)) = standard_price s
      \<and> configs (snd (calc e' s p)) = configs s" for e' s p
  proof -
    from calc_frame [of e' s p] obtain log where "snd (calc e' s p) = s\<lparr>result_file := log\<rparr>" ..
    then show ?thesis by simp
  qed
  show ?thesis
    using fr [of e self prices] fr [of e "init file f" prices] calc_frame [of e self prices]
    by (simp add: init_def)
qed

end
